theory Spec2Isabelle
  imports Complex_Main "HOL-Library.Log_Nat" "HOL-Library.AList"
begin

section \<open>NYOTA personality scoring: a model of \<open>nyota_personality.py\<close>\<close>

text \<open>
  The module turns a flat map of questionnaire answers (global item number to rating)
  into eight axis scores on a 0--100 scale and draws them as a radar chart.

  Conventions of the model:
  \<^item> a Python \<open>int\<close> is an \<open>int\<close>;
  \<^item> a Python \<open>str\<close> is a \<open>string\<close> holding its UTF-8 bytes, so \<open>\<eacute>\<close> is
    the two bytes \<open>0xC3 0xA9\<close>;
  \<^item> a Python \<open>float\<close> is a \<open>pyfloat\<close>: a finite binary64 value given as the
    rational number it denotes, or an infinity, or a NaN; every arithmetic operation
    rounds its exact result to the nearest binary64 value, ties to even (the sign of
    zero is not modelled);
  \<^item> a \<open>dict\<close> that is only looked up is a map; a \<open>dict\<close> whose order matters is
    an association list with distinct keys, updated as Python does (an existing key keeps
    its place, a new key goes last);
  \<^item> an exception is a value \<open>Inl e\<close> of a sum type.
\<close>

subsection \<open>Exceptions\<close>

datatype py_error =
    ValueError string
  | KeyError string
  | ZeroDivisionError
  | OverflowError

subsection \<open>Binary64 floating point\<close>

datatype pyfloat = Fin rat | PInf | NInf | NaN

text \<open>Rounding to the nearest integer, ties to the even one.\<close>

definition round_half_even :: "rat \<Rightarrow> int" where
  "round_half_even x =
     (let f = \<lfloor>x\<rfloor>; d = x - of_int f
      in if d < 1 / 2 then f
         else if 1 / 2 < d then f + 1
         else if even f then f else f + 1)"

text \<open>
  The binary exponent of a non-zero number: the \<open>e\<close> with \<open>2^e \<le> |x| < 2^(e+1)\<close>
  (lemma \<open>binade_bounds\<close> below), computed from the bit length of an integer.
\<close>

definition binade :: "rat \<Rightarrow> int" where
  "binade x =
     (if 1 \<le> \<bar>x\<bar> then bitlen \<lfloor>\<bar>x\<bar>\<rfloor> - 1
      else - bitlen (\<lceil>1 / \<bar>x\<bar>\<rceil> - 1))"

text \<open>
  The spacing of binary64 values around \<open>x\<close>: 53 significant bits, and the fixed
  spacing \<open>2^-1074\<close> of the subnormal range below \<open>2^-1022\<close>.
\<close>

definition ulp :: "rat \<Rightarrow> rat" where
  "ulp x = 2 powi (max (binade x) (- 1022) - 52)"

definition round_nearest :: "rat \<Rightarrow> rat" where
  "round_nearest x = of_int (round_half_even (x / ulp x)) * ulp x"

text \<open>The result of an operation whose exact value is \<open>x\<close>; it overflows to an infinity.\<close>

definition to_double :: "rat \<Rightarrow> pyfloat" where
  "to_double x =
     (let y = round_nearest x
      in if 2 ^ 1024 \<le> y then PInf
         else if y \<le> - (2 ^ 1024) then NInf
         else Fin y)"

text \<open>
  A float operation \<open>x \<mapsto> f x\<close> with a finite constant operand that keeps the sign
  of an infinity (subtracting a constant, dividing or multiplying by a positive
  constant): the exact result is rounded; infinities and NaN pass through.
\<close>

definition float_map :: "(rat \<Rightarrow> rat) \<Rightarrow> pyfloat \<Rightarrow> pyfloat" where
  "float_map f x = (case x of Fin a \<Rightarrow> to_double (f a) | _ \<Rightarrow> x)"

text \<open>
  \<open>round(x, ndigits)\<close> on a float, \<open>ndigits \<ge> 0\<close>: the decimal value of \<open>x\<close> is
  rounded to \<open>ndigits\<close> places, ties to even, and the result is converted back to the
  nearest float. Infinities and NaN round to themselves.
\<close>

definition py_round :: "pyfloat \<Rightarrow> nat \<Rightarrow> pyfloat" where
  "py_round x ndigits =
     (case x of
        Fin a \<Rightarrow> to_double (of_int (round_half_even (a * 10 ^ ndigits)) / 10 ^ ndigits)
      | _ \<Rightarrow> x)"

text \<open>
  \<open>a / b\<close> on two Python ints: the quotient correctly rounded to a float;
  \<open>ZeroDivisionError\<close> for \<open>b = 0\<close>, \<open>OverflowError\<close> when the quotient is too large.
\<close>

definition int_truediv :: "int \<Rightarrow> int \<Rightarrow> py_error + pyfloat" where
  "int_truediv a b =
     (if b = 0 then Inl ZeroDivisionError
      else case to_double (of_int a / of_int b) of
             Fin q \<Rightarrow> Inr (Fin q)
           | _ \<Rightarrow> Inl OverflowError)"

subsection \<open>Strings\<close>

text \<open>\<open>str(n)\<close> on an int, as an f-string renders it.\<close>

fun str_nat :: "nat \<Rightarrow> string" where
  "str_nat n =
     (if n < 10 then [''0123456789'' ! n]
      else str_nat (n div 10) @ [''0123456789'' ! (n mod 10)])"

declare str_nat.simps [simp del]

definition str_int :: "int \<Rightarrow> string" where
  "str_int i = (if i < 0 then ''-'' @ str_nat (nat (- i)) else str_nat (nat i))"

text \<open>The UTF-8 bytes of \<open>\<eacute>\<close> (U+00E9).\<close>

definition e_acute :: string where
  "e_acute = [CHR 0xC3, CHR 0xA9]"

subsection \<open>Configuration of the eight axes\<close>

text \<open>
  One entry of \<open>AXES_CONFIG\<close>: a dict with some of the keys \<open>"bloc1"\<close> \<dots> \<open>"bloc4"\<close>
  (each a list of local item numbers) and the key \<open>"invert"\<close> (a list of (block, item)
  pairs). \<open>items c b = None\<close> and \<open>invert c = None\<close> say that the key is absent.
\<close>

record axis_config =
  items :: "string \<rightharpoonup> int list"
  invert :: "(string \<times> int) list option"

definition axis_ouverture :: string where
  "axis_ouverture = ''Ouverture & Curiosit'' @ e_acute"

definition axis_discipline :: string where
  "axis_discipline = ''Discipline & Fiabilit'' @ e_acute"

definition axis_influence :: string where
  "axis_influence = ''Influence & Pr'' @ e_acute @ ''sence''"

definition axis_cooperation :: string where
  "axis_cooperation = ''Coop'' @ e_acute @ ''ration''"

definition axis_resilience :: string where
  "axis_resilience = ''R'' @ e_acute @ ''silience & Stress''"

definition axis_drive :: string where
  "axis_drive = ''Drive & Motivation''"

definition axis_style :: string where
  "axis_style = ''Style d'' @ [CHR 0x27] @ ''action''"

definition axis_alignement :: string where
  "axis_alignement = ''Alignement strat'' @ e_acute @ ''gique''"

text \<open>\<open>range(a, b)\<close> is \<open>[a..b - 1]\<close>. The dict keeps the order of the literal.\<close>

definition AXES_CONFIG :: "(string \<times> axis_config) list" where
  "AXES_CONFIG =
     [(axis_ouverture,
         \<lparr>items = [''bloc1'' \<mapsto> [1..6], ''bloc2'' \<mapsto> [14], ''bloc3'' \<mapsto> [3, 6]],
          invert = Some []\<rparr>),
      (axis_discipline,
         \<lparr>items = [''bloc1'' \<mapsto> [7..12], ''bloc3'' \<mapsto> [7, 11, 12]],
          invert = Some []\<rparr>),
      (axis_influence,
         \<lparr>items = [''bloc1'' \<mapsto> [13..18], ''bloc2'' \<mapsto> [15]],
          invert = Some []\<rparr>),
      (axis_cooperation,
         \<lparr>items = [''bloc1'' \<mapsto> [19..24], ''bloc2'' \<mapsto> [16]],
          invert = Some []\<rparr>),
      (axis_resilience,
         \<lparr>items = [''bloc1'' \<mapsto> [25..30], ''bloc2'' \<mapsto> [1..8]],
          invert = Some (map (\<lambda>q. (''bloc2'', q)) [1..8])\<rparr>),
      (axis_drive,
         \<lparr>items = [''bloc2'' \<mapsto> [9, 10, 11, 12, 13, 15, 16]],
          invert = Some []\<rparr>),
      (axis_style,
         \<lparr>items = [''bloc3'' \<mapsto> [1..12]],
          invert = Some []\<rparr>),
      (axis_alignement,
         \<lparr>items = [''bloc4'' \<mapsto> [1..14]],
          invert = Some []\<rparr>)]"

subsection \<open>Utility functions\<close>

definition invert_score :: "int \<Rightarrow> int" where
  "invert_score v = 6 - v"

text \<open>\<open>round(((score - 1) / 4) * 100, 2)\<close>, each operation on floats.\<close>

definition normalize_to_100 :: "pyfloat \<Rightarrow> pyfloat" where
  "normalize_to_100 score =
     py_round
       (float_map (\<lambda>a. a * 100) (float_map (\<lambda>a. a / 4) (float_map (\<lambda>a. a - 1) score)))
       2"

subsection \<open>From the flat answers to the four blocks\<close>

type_synonym raw_responses = "int \<rightharpoonup> int"

type_synonym responses = "string \<rightharpoonup> (int \<rightharpoonup> int)"

text \<open>\<open>responses[bloc][k] = v\<close>: the inner dict is updated in place.\<close>

definition set_item :: "responses \<Rightarrow> string \<Rightarrow> int \<Rightarrow> int \<Rightarrow> py_error + responses" where
  "set_item r bloc k v =
     (case r bloc of
        None \<Rightarrow> Inl (KeyError bloc)
      | Some d \<Rightarrow> Inr (r(bloc \<mapsto> d(k \<mapsto> v))))"

text \<open>
  One of the four loops \<open>for i in range(lo, hi): if i in json_data:
  responses[bloc][i - off] = json_data[i]\<close>, over the list of its indices.
\<close>

fun fill_bloc ::
  "raw_responses \<Rightarrow> string \<Rightarrow> int \<Rightarrow> int list \<Rightarrow> responses \<Rightarrow> py_error + responses" where
  "fill_bloc json_data bloc off [] r = Inr r"
| "fill_bloc json_data bloc off (i # rest) r =
     (case json_data i of
        None \<Rightarrow> fill_bloc json_data bloc off rest r
      | Some v \<Rightarrow>
          (case set_item r bloc (i - off) v of
             Inl e \<Rightarrow> Inl e
           | Inr r' \<Rightarrow> fill_bloc json_data bloc off rest r'))"

definition parse_responses :: "raw_responses \<Rightarrow> py_error + responses" where
  "parse_responses json_data =
     (let responses = [''bloc1'' \<mapsto> Map.empty, ''bloc2'' \<mapsto> Map.empty,
                       ''bloc3'' \<mapsto> Map.empty, ''bloc4'' \<mapsto> Map.empty]
      in case fill_bloc json_data ''bloc1'' 0 [1..30] responses of
           Inl e \<Rightarrow> Inl e
         | Inr r1 \<Rightarrow>
        (case fill_bloc json_data ''bloc2'' 30 [31..46] r1 of
           Inl e \<Rightarrow> Inl e
         | Inr r2 \<Rightarrow>
        (case fill_bloc json_data ''bloc3'' 46 [47..58] r2 of
           Inl e \<Rightarrow> Inl e
         | Inr r3 \<Rightarrow> fill_bloc json_data ''bloc4'' 58 [59..72] r3)))"

subsection \<open>Score of one axis\<close>

text \<open>The message of the \<open>ValueError\<close> for a missing item; it starts with U+274C.\<close>

definition missing_item_msg :: "string \<Rightarrow> string \<Rightarrow> int \<Rightarrow> string" where
  "missing_item_msg axis_name bloc_name item_num =
     [CHR 0xE2, CHR 0x9D, CHR 0x8C] @ '' ['' @ axis_name @ ''] Item manquant : ''
       @ bloc_name @ '' Q'' @ str_int item_num"

text \<open>The inner loop \<open>for item_num in config[bloc_name]\<close>, appending to \<open>values\<close>.\<close>

fun collect_items ::
  "string \<Rightarrow> axis_config \<Rightarrow> responses \<Rightarrow> string \<Rightarrow> int list \<Rightarrow> int list
     \<Rightarrow> py_error + int list" where
  "collect_items axis_name config responses bloc_name [] vals = Inr vals"
| "collect_items axis_name config responses bloc_name (item_num # rest) vals =
     (case responses bloc_name of
        None \<Rightarrow> Inl (KeyError bloc_name)
      | Some d \<Rightarrow>
          (case d item_num of
             None \<Rightarrow> Inl (ValueError (missing_item_msg axis_name bloc_name item_num))
           | Some v \<Rightarrow>
               (case invert config of
                  None \<Rightarrow> Inl (KeyError ''invert'')
                | Some pairs \<Rightarrow>
                    collect_items axis_name config responses bloc_name rest
                      (vals @ [if (bloc_name, item_num) \<in> set pairs
                               then invert_score v else v]))))"

text \<open>The outer loop over the four block names; a block absent from the config is skipped.\<close>

fun collect_blocs ::
  "string \<Rightarrow> axis_config \<Rightarrow> responses \<Rightarrow> string list \<Rightarrow> int list
     \<Rightarrow> py_error + int list" where
  "collect_blocs axis_name config responses [] vals = Inr vals"
| "collect_blocs axis_name config responses (bloc_name # rest) vals =
     (case items config bloc_name of
        None \<Rightarrow> collect_blocs axis_name config responses rest vals
      | Some item_nums \<Rightarrow>
          (case collect_items axis_name config responses bloc_name item_nums vals of
             Inl e \<Rightarrow> Inl e
           | Inr vals' \<Rightarrow> collect_blocs axis_name config responses rest vals'))"

definition bloc_names :: "string list" where
  "bloc_names = [''bloc1'', ''bloc2'', ''bloc3'', ''bloc4'']"

definition compute_axis_score ::
  "string \<Rightarrow> axis_config \<Rightarrow> responses \<Rightarrow> py_error + pyfloat" where
  "compute_axis_score axis_name config responses =
     (case collect_blocs axis_name config responses bloc_names [] of
        Inl e \<Rightarrow> Inl e
      | Inr vals \<Rightarrow>
          if vals = [] then Inr (Fin 0)
          else (case int_truediv (sum_list vals) (int (length vals)) of
                  Inl e \<Rightarrow> Inl e
                | Inr mean_score \<Rightarrow> Inr (normalize_to_100 mean_score)))"

subsection \<open>All eight scores\<close>

text \<open>The loop \<open>for axis_name, config in AXES_CONFIG.items()\<close>, filling \<open>scores\<close>.\<close>

fun score_axes ::
  "(string \<times> axis_config) list \<Rightarrow> responses \<Rightarrow> (string \<times> pyfloat) list
     \<Rightarrow> py_error + (string \<times> pyfloat) list" where
  "score_axes [] responses scores = Inr scores"
| "score_axes ((axis_name, config) # rest) responses scores =
     (case compute_axis_score axis_name config responses of
        Inl e \<Rightarrow> Inl e
      | Inr s \<Rightarrow> score_axes rest responses (AList.update axis_name s scores))"

definition compute_all_scores :: "raw_responses \<Rightarrow> py_error + (string \<times> pyfloat) list" where
  "compute_all_scores json_responses =
     (case parse_responses json_responses of
        Inl e \<Rightarrow> Inl e
      | Inr responses \<Rightarrow> score_axes AXES_CONFIG responses [])"

text \<open>The answers that give every item 1 to 72 the same rating.\<close>

definition all_items :: "int \<Rightarrow> raw_responses" where
  "all_items v = (\<lambda>i. if 1 \<le> i \<and> i \<le> 72 then Some v else None)"

subsection \<open>The radar chart\<close>

text \<open>
  The calls \<open>plot_kiviat\<close> makes on numpy, matplotlib and the console, in the order of
  the source. The angles are floats computed from \<open>np.pi\<close> and are left out of the
  arguments; labels, values and paths are kept.
\<close>

datatype plot_call =
    Linspace nat
  | Subplots
  | SetThetaOffset
  | SetThetaDirection
  | SetXticks
  | SetXticklabels "string list"
  | SetYlim
  | SetYticks
  | SetYticklabels
  | Plot "pyfloat list"
  | Fill "pyfloat list"
  | Grid
  | SetTitle
  | TightLayout
  | Savefig string
  | Print string
  | Show

text \<open>The message of the \<open>ValueError\<close> for a wrong number of axes; it starts with U+26A0 U+FE0F.\<close>

definition axes_count_msg :: "nat \<Rightarrow> string" where
  "axes_count_msg n =
     [CHR 0xE2, CHR 0x9A, CHR 0xA0, CHR 0xEF, CHR 0xB8, CHR 0x8F]
       @ '' Le diagramme n'' @ e_acute @ ''cessite 8 axes, trouv'' @ e_acute @ '' : ''
       @ str_nat n"

definition saved_msg :: "string \<Rightarrow> string" where
  "saved_msg save_path =
     [CHR 0xE2, CHR 0x9C, CHR 0x85] @ '' Diagramme sauvegard'' @ e_acute @ '' : '' @ save_path"

text \<open>
  A call on a library can raise, and the exception leaves \<open>plot_kiviat\<close> uncaught.
  \<open>lib c\<close> is the exception the call \<open>c\<close> raises, \<open>None\<close> when it returns.
  \<open>run_calls\<close> makes the calls in order and stops at the first that raises; a call that
  raises counts as made.
\<close>

fun run_calls ::
  "(plot_call \<Rightarrow> py_error option) \<Rightarrow> plot_call list \<Rightarrow> plot_call list
     \<Rightarrow> py_error option \<times> plot_call list" where
  "run_calls lib [] calls = (None, calls)"
| "run_calls lib (c # cs) calls =
     (case lib c of
        Some e \<Rightarrow> (Some e, calls @ [c])
      | None \<Rightarrow> run_calls lib cs (calls @ [c]))"

text \<open>
  \<open>plot_kiviat(scores, save_path)\<close> takes the calls made so far and returns the
  exception raised, if any, with the calls made when it stops. \<open>scores\<close> is a dict in
  insertion order, an association list with distinct keys, so \<open>len(scores)\<close> is its
  length. \<open>save_path\<close> is \<open>None\<close> or a string; the empty string is falsy as well.
\<close>

definition plot_kiviat ::
  "(plot_call \<Rightarrow> py_error option) \<Rightarrow> (string \<times> pyfloat) list \<Rightarrow> string option
     \<Rightarrow> plot_call list \<Rightarrow> py_error option \<times> plot_call list" where
  "plot_kiviat lib scores save_path calls =
     (if length scores \<noteq> 8 then (Some (ValueError (axes_count_msg (length scores))), calls)
      else
        let labels = map fst scores;
            vals = map snd scores;
            num_axes = length labels;
            vals = vals @ take 1 vals
        in run_calls lib
             ([Linspace num_axes, Subplots, SetThetaOffset, SetThetaDirection,
               SetXticks, SetXticklabels labels, SetYlim, SetYticks, SetYticklabels,
               Plot vals, Fill vals, Grid, SetTitle, TightLayout]
              @ (case save_path of
                   None \<Rightarrow> []
                 | Some p \<Rightarrow> if p = [] then [] else [Savefig p, Print (saved_msg p)])
              @ [Show])
             calls)"

section \<open>Properties\<close>

subsection \<open>Rounding\<close>

lemma round_half_even_of_int: "round_half_even (of_int n) = n"
  by (simp add: round_half_even_def)

lemma round_half_even_bounds:
  "of_int (round_half_even x) - 1 / 2 \<le> x \<and> x \<le> of_int (round_half_even x) + 1 / 2"
  unfolding round_half_even_def Let_def
  by (auto simp: not_less) linarith+

lemma round_half_even_mono: "x \<le> y \<Longrightarrow> round_half_even x \<le> round_half_even y"
proof -
  assume xy: "x \<le> y"
  have fl: "\<lfloor>x\<rfloor> \<le> \<lfloor>y\<rfloor>" using xy by (rule floor_mono)
  show ?thesis
  proof (cases "\<lfloor>x\<rfloor> = \<lfloor>y\<rfloor>")
    case True
    then show ?thesis using xy
      unfolding round_half_even_def Let_def by auto
  next
    case False
    then have "\<lfloor>x\<rfloor> + 1 \<le> \<lfloor>y\<rfloor>" using fl by linarith
    moreover have "round_half_even x \<le> \<lfloor>x\<rfloor> + 1"
      unfolding round_half_even_def Let_def by auto
    moreover have "\<lfloor>y\<rfloor> \<le> round_half_even y"
      unfolding round_half_even_def Let_def by auto
    ultimately show ?thesis by linarith
  qed
qed

lemma round_half_even_eqI:
  "of_int n - 1 / 2 < x \<Longrightarrow> x < of_int n + 1 / 2 \<Longrightarrow> round_half_even x = n"
  unfolding round_half_even_def Let_def
  by (auto simp: not_less) linarith+

lemma binade_bounds:
  assumes "x \<noteq> 0"
  shows "2 powi binade x \<le> \<bar>x\<bar> \<and> \<bar>x\<bar> < 2 powi (binade x + 1)"
proof (cases "1 \<le> \<bar>x\<bar>")
  case True
  define n where "n = \<lfloor>\<bar>x\<bar>\<rfloor>"
  have n1: "1 \<le> n" using True by (simp add: n_def le_floor_iff)
  then have n0: "0 < n" by simp
  have b: "2 ^ nat (bitlen n - 1) \<le> n" "n < 2 ^ nat (bitlen n)"
    using bitlen_bounds [OF n0] by auto
  have bl: "1 \<le> bitlen n" using n0 by (auto simp: bitlen_alt_def)
  have e: "binade x = bitlen n - 1" using True by (simp add: binade_def n_def)
  have "(2::rat) powi (bitlen n - 1) = of_int (2 ^ nat (bitlen n - 1))"
    using bl by (simp add: power_int_def)
  also have "\<dots> \<le> of_int n" using b(1) by (simp only: of_int_le_iff)
  also have "\<dots> \<le> \<bar>x\<bar>" by (simp add: n_def)
  finally have lo: "2 powi binade x \<le> \<bar>x\<bar>" by (simp add: e)
  have "\<bar>x\<bar> < of_int (n + 1)" unfolding n_def by linarith
  also have "\<dots> \<le> of_int (2 ^ nat (bitlen n))" using b(2) by (simp only: of_int_le_iff)
  also have "\<dots> = (2::rat) powi (bitlen n)" using bl by (simp add: power_int_def)
  finally have "\<bar>x\<bar> < 2 powi (binade x + 1)" by (simp add: e)
  with lo show ?thesis by simp
next
  case False
  define y where "y = 1 / \<bar>x\<bar>"
  define m where "m = \<lceil>y\<rceil> - 1"
  have x0: "0 < \<bar>x\<bar>" using assms by simp
  have x1: "\<bar>x\<bar> < 1" using False by simp
  have y1: "1 < y" using x0 x1 by (simp add: y_def)
  have m1: "1 \<le> m" using y1 by (simp add: m_def less_ceiling_iff)
  then have m0: "0 < m" by simp
  have b: "2 ^ nat (bitlen m - 1) \<le> m" "m < 2 ^ nat (bitlen m)"
    using bitlen_bounds [OF m0] by auto
  have bl: "1 \<le> bitlen m" using m0 by (auto simp: bitlen_alt_def)
  have e: "binade x = - bitlen m" using False by (simp add: binade_def m_def y_def)
  have xy: "\<bar>x\<bar> = 1 / y" by (simp add: y_def)
  have "y \<le> of_int (m + 1)" unfolding m_def by simp
  also have "\<dots> \<le> of_int (2 ^ nat (bitlen m))" using b(2) by (simp only: of_int_le_iff)
  also have "\<dots> = (2::rat) ^ nat (bitlen m)" by simp
  finally have yle: "y \<le> 2 ^ nat (bitlen m)" .
  have "(2::rat) ^ nat (bitlen m - 1) = of_int (2 ^ nat (bitlen m - 1))" by simp
  also have "\<dots> \<le> of_int m" using b(1) by (simp only: of_int_le_iff)
  also have "\<dots> < y" by (simp add: m_def) linarith
  finally have ylt: "2 ^ nat (bitlen m - 1) < y" .
  have p1: "(2::rat) powi (- bitlen m) = 1 / 2 ^ nat (bitlen m)"
    using bl by (simp add: power_int_def field_simps)
  have p2: "(2::rat) powi (- bitlen m + 1) = 1 / 2 ^ nat (bitlen m - 1)"
    using bl by (auto simp add: power_int_def field_simps nat_diff_distrib)
  have "2 powi binade x \<le> \<bar>x\<bar>"
    unfolding e p1 xy using yle y1 by (simp add: field_simps)
  moreover have "\<bar>x\<bar> < 2 powi (binade x + 1)"
    unfolding e p2 xy using ylt y1 by (simp add: field_simps)
  ultimately show ?thesis by simp
qed

lemma binade_unique:
  assumes "2 powi e \<le> \<bar>x\<bar>" "\<bar>x\<bar> < 2 powi (e + 1)"
  shows "binade x = e"
proof -
  have "(0::rat) < 2 powi e" by (rule zero_less_power_int) simp
  then have "0 < \<bar>x\<bar>" using assms(1) by linarith
  then have x0: "x \<noteq> 0" by simp
  note b = binade_bounds [OF x0]
  have 1: "e < binade x + 1"
  proof (rule ccontr)
    assume "\<not> e < binade x + 1"
    then have "binade x + 1 \<le> e" by simp
    then have "(2::rat) powi (binade x + 1) \<le> 2 powi e"
      by (rule power_int_increasing) simp
    with assms(1) b show False by linarith
  qed
  have 2: "binade x < e + 1"
  proof (rule ccontr)
    assume "\<not> binade x < e + 1"
    then have "e + 1 \<le> binade x" by simp
    then have "(2::rat) powi (e + 1) \<le> 2 powi binade x"
      by (rule power_int_increasing) simp
    with assms(2) b show False by linarith
  qed
  from 1 2 show ?thesis by linarith
qed

lemma binade_le:
  assumes "x \<noteq> 0" "\<bar>x\<bar> < 2 powi e"
  shows "binade x < e"
proof (rule ccontr)
  assume "\<not> binade x < e"
  then have "e \<le> binade x" by simp
  then have "(2::rat) powi e \<le> 2 powi binade x"
    by (rule power_int_increasing) simp
  with assms(2) binade_bounds [OF assms(1)] show False by linarith
qed

lemma ulp_pos: "0 < ulp x"
  unfolding ulp_def by (rule zero_less_power_int) simp

lemma round_nearest_nonneg:
  assumes "0 \<le> x"
  shows "0 \<le> round_nearest x"
proof -
  have "0 \<le> x / ulp x" using assms ulp_pos [of x] by simp
  then have "round_half_even 0 \<le> round_half_even (x / ulp x)"
    by (rule round_half_even_mono)
  then have "0 \<le> round_half_even (x / ulp x)"
    using round_half_even_of_int [of 0] by simp
  then show ?thesis
    unfolding round_nearest_def using ulp_pos [of x] by simp
qed

text \<open>A multiple of the spacing at \<open>x\<close> that bounds \<open>x\<close> bounds its rounding too.\<close>

lemma round_nearest_le_multiple:
  assumes "x \<le> of_int j * ulp x"
  shows "round_nearest x \<le> of_int j * ulp x"
proof -
  have "x / ulp x \<le> of_int j" using assms ulp_pos [of x] by (simp add: field_simps)
  then have "round_half_even (x / ulp x) \<le> round_half_even (of_int j)"
    by (rule round_half_even_mono)
  then have "round_half_even (x / ulp x) \<le> j" by (simp add: round_half_even_of_int)
  then have "(of_int (round_half_even (x / ulp x)) :: rat) \<le> of_int j" by simp
  then show ?thesis
    unfolding round_nearest_def using ulp_pos [of x] by simp
qed

lemma round_nearest_le:
  assumes "0 \<le> x" "x \<le> of_int k" "k \<le> 2 ^ 52"
  shows "round_nearest x \<le> of_int k"
proof (cases "x = 0")
  case True
  have "round_nearest 0 = 0"
    by (simp add: round_nearest_def round_half_even_of_int [of 0, simplified])
  with True assms show ?thesis by simp
next
  case False
  have "(of_int k :: rat) \<le> of_int (2 ^ 52)" using assms(3) by (simp only: of_int_le_iff)
  then have "\<bar>x\<bar> \<le> of_int (2 ^ 52)" using assms(1,2) by linarith
  also have "\<dots> < (2::rat) powi 53" by simp
  finally have "binade x < 53" by (rule binade_le [OF False])
  then have E: "max (binade x) (- 1022) - 52 \<le> 0" by simp
  define n where "n = nat (- (max (binade x) (- 1022) - 52))"
  have "max (binade x) (- 1022) - 52 = - int n" using E by (simp add: n_def)
  then have "ulp x = 2 powi (- int n)" by (simp only: ulp_def)
  also have "\<dots> = 1 / 2 ^ n" by (simp add: power_int_minus field_simps)
  finally have u: "ulp x = 1 / 2 ^ n" .
  have k: "(of_int (k * 2 ^ n) :: rat) * (1 / 2 ^ n) = of_int k" by simp
  have "x \<le> of_int (k * 2 ^ n) * ulp x" unfolding u k by (rule assms(2))
  then have "round_nearest x \<le> of_int (k * 2 ^ n) * ulp x"
    by (rule round_nearest_le_multiple)
  then show ?thesis unfolding u k .
qed

lemma to_double_bounded:
  assumes "0 \<le> x" "x \<le> of_int k" "k \<le> 2 ^ 52"
  shows "\<exists>y. to_double x = Fin y \<and> 0 \<le> y \<and> y \<le> of_int k"
proof -
  have lo: "0 \<le> round_nearest x" using assms(1) by (rule round_nearest_nonneg)
  have hi: "round_nearest x \<le> of_int k" using assms by (rule round_nearest_le)
  have "(of_int k :: rat) \<le> of_int (2 ^ 52)" using assms(3) by (simp only: of_int_le_iff)
  also have "\<dots> < (2::rat) ^ 1024" by simp
  finally have "round_nearest x < 2 ^ 1024" using hi by linarith
  moreover have "- (2 ^ 1024) < round_nearest x"
    using lo by (rule less_le_trans [rotated]) simp
  ultimately have "to_double x = Fin (round_nearest x)"
    by (simp add: to_double_def Let_def)
  with lo hi show ?thesis by simp
qed

text \<open>A number with at most 53 significant bits is a binary64 value: rounding keeps it.\<close>

lemma round_nearest_dyadic:
  assumes "\<bar>m\<bar> < 2 ^ 53" "n \<le> 1074"
  shows "round_nearest (of_int m / 2 ^ n) = of_int m / 2 ^ n"
proof (cases "m = 0")
  case True
  then show ?thesis
    by (simp add: round_nearest_def round_half_even_of_int [of 0, simplified])
next
  case False
  define x :: rat where "x = of_int m / 2 ^ n"
  have x0: "x \<noteq> 0" using False by (simp add: x_def)
  have "\<bar>x\<bar> = of_int \<bar>m\<bar> / 2 ^ n" by (simp add: x_def abs_divide)
  also have "\<dots> < of_int (2 ^ 53) / 2 ^ n"
    using assms(1) by (simp only: of_int_less_iff divide_strict_right_mono zero_less_power zero_less_numeral)
  also have "\<dots> = 2 powi (53 - int n)"
    by (simp add: power_int_diff)
  finally have "binade x < 53 - int n" by (rule binade_le [OF x0])
  then have E: "max (binade x) (- 1022) - 52 \<le> - int n" using assms(2) by simp
  define d where "d = nat (- int n - (max (binade x) (- 1022) - 52))"
  have "max (binade x) (- 1022) - 52 = - int n - int d" using E by (simp add: d_def)
  then have "ulp x = 2 powi (- int n - int d)" by (simp only: ulp_def)
  also have "\<dots> = 1 / (2 ^ n * 2 ^ d)"
    by (simp add: power_int_diff power_int_minus field_simps)
  finally have u: "ulp x = 1 / (2 ^ n * 2 ^ d)" .
  have "x / ulp x = x * (2 ^ n * 2 ^ d)" by (simp add: u)
  also have "\<dots> = of_int (m * 2 ^ d)" by (simp add: x_def)
  finally have q: "x / ulp x = of_int (m * 2 ^ d)" .
  have "round_nearest x = of_int (m * 2 ^ d) * ulp x"
    unfolding round_nearest_def q round_half_even_of_int ..
  also have "\<dots> = of_int (m * 2 ^ d) * (1 / (2 ^ n * 2 ^ d))" by (simp only: u)
  also have "\<dots> = of_int m / 2 ^ n" by simp
  finally show ?thesis by (simp only: x_def)
qed

lemma to_double_dyadic:
  assumes "\<bar>m\<bar> < 2 ^ 53" "n \<le> 1074"
  shows "to_double (of_int m / 2 ^ n) = Fin (of_int m / 2 ^ n)"
proof -
  define x :: rat where "x = of_int m / 2 ^ n"
  have r: "round_nearest x = x" unfolding x_def using assms by (rule round_nearest_dyadic)
  have "\<bar>x\<bar> = of_int \<bar>m\<bar> / 2 ^ n" by (simp add: x_def abs_divide)
  also have "\<dots> \<le> of_int \<bar>m\<bar>" by (simp add: divide_le_eq_1 field_simps mult_le_cancel_left1)
  also have "\<dots> < of_int (2 ^ 53)" using assms(1) by (simp only: of_int_less_iff)
  also have "\<dots> < (2::rat) ^ 1024" by simp
  finally have "\<bar>x\<bar> < 2 ^ 1024" .
  then have "x < 2 ^ 1024" "- (2 ^ 1024) < x" by (simp_all add: abs_less_iff)
  then show ?thesis
    unfolding x_def [symmetric] by (simp add: to_double_def Let_def r)
qed

lemma to_double_int:
  assumes "\<bar>m\<bar> < 2 ^ 53"
  shows "to_double (of_int m) = Fin (of_int m)"
  using to_double_dyadic [OF assms, of 0] by simp

text \<open>Evaluating a rounding from the binade of the number.\<close>

lemma to_double_eval:
  assumes "2 powi e \<le> \<bar>x\<bar>" "\<bar>x\<bar> < 2 powi (e + 1)" "- 1022 \<le> e" "e \<le> 1022"
    and "round_half_even (x / 2 powi (e - 52)) = n"
  shows "to_double x = Fin (of_int n * 2 powi (e - 52))"
proof -
  have b: "binade x = e" using assms(1,2) by (rule binade_unique)
  have u: "ulp x = 2 powi (e - 52)" using assms(3) by (simp add: ulp_def b)
  have r: "round_nearest x = of_int n * 2 powi (e - 52)"
    by (simp add: round_nearest_def u assms(5))
  have p: "(0::rat) < 2 powi (e - 52)" by (rule zero_less_power_int) simp
  have "\<bar>x\<bar> / 2 powi (e - 52) < 2 powi (e + 1) / 2 powi (e - 52)"
    using assms(2) p by (simp add: divide_strict_right_mono)
  also have "\<dots> = 2 powi 53" by (simp flip: power_int_diff)
  finally have q: "\<bar>x / 2 powi (e - 52)\<bar> < of_int (2 ^ 53)"
    using p by (simp add: abs_divide)
  have "round_half_even (x / 2 powi (e - 52)) \<le> round_half_even (of_int (2 ^ 53))"
    by (rule round_half_even_mono) (use q in linarith)
  moreover have "round_half_even (of_int (- (2 ^ 53))) \<le> round_half_even (x / 2 powi (e - 52))"
    by (rule round_half_even_mono) (use q in linarith)
  ultimately have n: "\<bar>n\<bar> \<le> 2 ^ 53"
    unfolding round_half_even_of_int assms(5) by simp
  have "\<bar>of_int n * 2 powi (e - 52) :: rat\<bar> = of_int \<bar>n\<bar> * 2 powi (e - 52)"
    using p by (simp add: abs_mult)
  also have "\<dots> \<le> of_int (2 ^ 53) * 2 powi (e - 52)"
    using n p by (simp only: of_int_le_iff mult_le_cancel_right_pos)
  also have "\<dots> = 2 powi (e + 1)" by (simp add: power_int_diff power_int_add)
  also have "\<dots> \<le> 2 powi 1023" by (rule power_int_increasing) (use assms(4) in simp_all)
  also have "\<dots> < (2::rat) ^ 1024" by simp
  finally have "\<bar>of_int n * 2 powi (e - 52) :: rat\<bar> < 2 ^ 1024" .
  then show ?thesis
    by (simp add: to_double_def Let_def r abs_less_iff)
qed

lemma float_map_Fin: "float_map f (Fin a) = to_double (f a)"
  by (simp add: float_map_def)

lemma py_round_Fin:
  "py_round (Fin a) n = to_double (of_int (round_half_even (a * 10 ^ n)) / 10 ^ n)"
  by (simp add: py_round_def)

lemma normalize_to_100_Fin:
  "normalize_to_100 (Fin m) =
     py_round (float_map (\<lambda>a. a * 100) (float_map (\<lambda>a. a / 4) (to_double (m - 1)))) 2"
  by (simp add: normalize_to_100_def float_map_Fin)

lemma normalize_to_100_1: "normalize_to_100 (Fin 1) = Fin 0"
  using to_double_int [of 0]
  by (simp add: normalize_to_100_Fin float_map_Fin py_round_Fin round_half_even_of_int [of 0, simplified])

lemma normalize_to_100_3: "normalize_to_100 (Fin 3) = Fin 50"
  using to_double_int [of 2] to_double_dyadic [of 1 1] to_double_int [of 50]
    round_half_even_of_int [of 5000]
  by (simp add: normalize_to_100_Fin float_map_Fin py_round_Fin)

lemma normalize_to_100_5: "normalize_to_100 (Fin 5) = Fin 100"
  using to_double_int [of 4] to_double_int [of 1] to_double_int [of 100]
    round_half_even_of_int [of 10000]
  by (simp add: normalize_to_100_Fin float_map_Fin py_round_Fin)

lemma fill_bloc_Inr:
  "r b = Some d \<Longrightarrow>
   fill_bloc json b off is r =
     Inr (r(b \<mapsto> (\<lambda>k. if k + off \<in> set is \<and> json (k + off) \<noteq> None
                        then json (k + off) else d k)))"
proof (induction "is" arbitrary: r d)
  case Nil
  then show ?case by (simp add: fun_upd_idem)
next
  case (Cons i rest)
  show ?case
  proof (cases "json i")
    case None
    have "fill_bloc json b off (i # rest) r = fill_bloc json b off rest r"
      by (simp add: None)
    also have "\<dots> = Inr (r(b \<mapsto> (\<lambda>k. if k + off \<in> set rest \<and> json (k + off) \<noteq> None
                        then json (k + off) else d k)))"
      by (rule Cons.IH) (rule Cons.prems)
    also have "(\<lambda>k. if k + off \<in> set rest \<and> json (k + off) \<noteq> None
                        then json (k + off) else d k) =
               (\<lambda>k. if k + off \<in> set (i # rest) \<and> json (k + off) \<noteq> None
                        then json (k + off) else d k)"
      using None by (auto simp: fun_eq_iff)
    finally show ?thesis .
  next
    case (Some v)
    let ?r' = "r(b \<mapsto> d(i - off \<mapsto> v))"
    have r': "?r' b = Some (d(i - off \<mapsto> v))" by simp
    have "fill_bloc json b off (i # rest) r = fill_bloc json b off rest ?r'"
      by (simp add: Some set_item_def Cons.prems)
    also have "\<dots> = Inr (?r'(b \<mapsto> (\<lambda>k. if k + off \<in> set rest \<and> json (k + off) \<noteq> None
                        then json (k + off) else (d(i - off \<mapsto> v)) k)))"
      by (rule Cons.IH) (rule r')
    also have "(\<lambda>k. if k + off \<in> set rest \<and> json (k + off) \<noteq> None
                        then json (k + off) else (d(i - off \<mapsto> v)) k) =
               (\<lambda>k. if k + off \<in> set (i # rest) \<and> json (k + off) \<noteq> None
                        then json (k + off) else d k)"
      using Some by (auto simp: fun_eq_iff)
    finally show ?thesis by (simp only: fun_upd_upd)
  qed
qed

lemma fill_bloc_range:
  assumes "r b = Some Map.empty"
  shows "fill_bloc json b off [lo..hi] r =
           Inr (r(b \<mapsto> (\<lambda>k. if lo - off \<le> k \<and> k \<le> hi - off then json (k + off) else None)))"
proof -
  have "(\<lambda>k. if k + off \<in> set [lo..hi] \<and> json (k + off) \<noteq> None
                 then json (k + off) else Map.empty k) =
        (\<lambda>k. if lo - off \<le> k \<and> k \<le> hi - off then json (k + off) else None)"
    by (auto simp: fun_eq_iff)
  then show ?thesis
    using fill_bloc_Inr [of r b Map.empty json off "[lo..hi]"] assms by simp
qed

lemma parse_responses_eq:
  "parse_responses json =
     Inr [''bloc1'' \<mapsto> (\<lambda>k. if 1 \<le> k \<and> k \<le> 30 then json k else None),
          ''bloc2'' \<mapsto> (\<lambda>k. if 1 \<le> k \<and> k \<le> 16 then json (k + 30) else None),
          ''bloc3'' \<mapsto> (\<lambda>k. if 1 \<le> k \<and> k \<le> 12 then json (k + 46) else None),
          ''bloc4'' \<mapsto> (\<lambda>k. if 1 \<le> k \<and> k \<le> 14 then json (k + 58) else None)]"
  unfolding parse_responses_def Let_def
  by (simp add: fill_bloc_range fun_eq_iff del: upto_rec_numeral)

lemma upto_from_1: "[1..numeral n] = 1 # [2..numeral n]"
  by (simp add: upto_rec1)

lemmas axis_names = axis_ouverture_def axis_discipline_def axis_influence_def
  axis_cooperation_def axis_resilience_def axis_drive_def axis_style_def
  axis_alignement_def e_acute_def

lemma int_truediv_exact:
  assumes "b \<noteq> 0" "a = q * b" "\<bar>q\<bar> < 2 ^ 53"
  shows "int_truediv a b = Inr (Fin (of_int q))"
  using assms to_double_int [of q] by (simp add: int_truediv_def)

lemma mean_38_14: "int_truediv 38 14 = Inr (Fin (3056014032858551 / 1125899906842624))"
proof -
  have "round_half_even ((38 / 14) / 2 powi (1 - 52)) = 6112028065717102"
    by (rule round_half_even_eqI) simp_all
  then have "to_double (38 / 14) = Fin (of_int 6112028065717102 * 2 powi (1 - 52))"
    by (rule to_double_eval [rotated 4]) simp_all
  then show ?thesis by (simp add: int_truediv_def)
qed

lemma normalize_to_100_resilience:
  "normalize_to_100 (Fin (3056014032858551 / 1125899906842624)) =
     Fin (3016004375454679 / 70368744177664)"
proof -
  have a1: "to_double (3056014032858551 / 1125899906842624 - 1) =
              Fin (1930114126015927 / 1125899906842624)"
    using to_double_dyadic [of 1930114126015927 50] by simp
  have a2: "to_double (1930114126015927 / 1125899906842624 / 4) =
              Fin (1930114126015927 / 4503599627370496)"
    using to_double_dyadic [of 1930114126015927 52] by simp
  have "round_half_even ((1930114126015927 / 4503599627370496 * 100) / 2 powi (5 - 52)) =
          6031606643799772"
    by (rule round_half_even_eqI) simp_all
  then have "to_double (1930114126015927 / 4503599627370496 * 100) =
          Fin (of_int 6031606643799772 * 2 powi (5 - 52))"
    by (rule to_double_eval [rotated 4]) simp_all
  then have a3: "to_double (1930114126015927 / 4503599627370496 * 100) =
          Fin (1507901660949943 / 35184372088832)"
    by simp
  have k: "round_half_even (1507901660949943 / 35184372088832 * 10 ^ 2) = 4286"
    by (rule round_half_even_eqI) simp_all
  have "round_half_even ((4286 / 10 ^ 2) / 2 powi (5 - 52)) = 6032008750909358"
    by (rule round_half_even_eqI) simp_all
  then have "to_double (4286 / 10 ^ 2) = Fin (of_int 6032008750909358 * 2 powi (5 - 52))"
    by (rule to_double_eval [rotated 4]) simp_all
  then have r: "to_double (of_int 4286 / 10 ^ 2) = Fin (3016004375454679 / 70368744177664)"
    by simp
  show ?thesis
    by (simp only: normalize_to_100_Fin a1 float_map_Fin a2 a3 py_round_Fin k r)
qed

lemma resilience_before_rounding:
  "float_map (\<lambda>a. a * 100) (float_map (\<lambda>a. a / 4) (float_map (\<lambda>a. a - 1)
     (Fin (3056014032858551 / 1125899906842624)))) = Fin (1507901660949943 / 35184372088832)"
proof -
  have a1: "to_double (3056014032858551 / 1125899906842624 - 1) =
              Fin (1930114126015927 / 1125899906842624)"
    using to_double_dyadic [of 1930114126015927 50] by simp
  have a2: "to_double (1930114126015927 / 1125899906842624 / 4) =
              Fin (1930114126015927 / 4503599627370496)"
    using to_double_dyadic [of 1930114126015927 52] by simp
  have "round_half_even ((1930114126015927 / 4503599627370496 * 100) / 2 powi (5 - 52)) =
          6031606643799772"
    by (rule round_half_even_eqI) simp_all
  then have "to_double (1930114126015927 / 4503599627370496 * 100) =
          Fin (of_int 6031606643799772 * 2 powi (5 - 52))"
    by (rule to_double_eval [rotated 4]) simp_all
  then have a3: "to_double (1930114126015927 / 4503599627370496 * 100) =
          Fin (1507901660949943 / 35184372088832)"
    by simp
  show ?thesis by (simp only: float_map_Fin a1 a2 a3)
qed

subsection \<open>The scorer's loops\<close>


lemma collect_items_empty: "collect_items axis config responses b [] vals = Inr vals"
  by simp

lemma collect_items_error:
  "collect_items axis config responses b l vals = Inl e \<Longrightarrow>
     (e = KeyError b \<and> responses b = None) \<or> e = KeyError ''invert'' \<or>
     (\<exists>i. e = ValueError (missing_item_msg axis b i))"
  by (induction l arbitrary: vals) (auto split: option.splits)

lemma collect_blocs_error:
  "collect_blocs axis config responses bs vals = Inl e \<Longrightarrow>
     (\<exists>b\<in>set bs. e = KeyError b \<and> responses b = None) \<or> e = KeyError ''invert'' \<or>
     (\<exists>b i. e = ValueError (missing_item_msg axis b i))"
proof (induction bs arbitrary: vals)
  case Nil
  then show ?case by simp
next
  case (Cons b bs)
  show ?case
  proof (cases "items config b")
    case None
    with Cons.prems have "collect_blocs axis config responses bs vals = Inl e" by simp
    from Cons.IH [OF this] show ?thesis by auto
  next
    case (Some l)
    show ?thesis
    proof (cases "collect_items axis config responses b l vals")
      case (Inl e')
      with Some Cons.prems have "e' = e" by simp
      with Inl collect_items_error [of axis config responses b l vals e] show ?thesis by auto
    next
      case (Inr vals')
      with Some Cons.prems have "collect_blocs axis config responses bs vals' = Inl e" by simp
      from Cons.IH [OF this] show ?thesis by auto
    qed
  qed
qed

lemma compute_axis_score_error:
  assumes "compute_axis_score axis config responses = Inl e"
  shows "(\<exists>b\<in>set bloc_names. e = KeyError b \<and> responses b = None) \<or> e = KeyError ''invert'' \<or>
         (\<exists>b i. e = ValueError (missing_item_msg axis b i)) \<or> e = OverflowError"
proof (cases "collect_blocs axis config responses bloc_names []")
  case (Inl e')
  with assms have "e' = e" by (simp add: compute_axis_score_def)
  with Inl collect_blocs_error [of axis config responses bloc_names "[]" e] show ?thesis by auto
next
  case (Inr vals)
  with assms have ne: "vals \<noteq> []" by (auto simp: compute_axis_score_def)
  with assms Inr have d: "int_truediv (sum_list vals) (int (length vals)) = Inl e"
    by (auto simp: compute_axis_score_def split: sum.splits)
  have "int (length vals) \<noteq> 0" using ne by simp
  with d have "e = OverflowError"
    by (auto simp: int_truediv_def split: if_splits pyfloat.splits)
  then show ?thesis by simp
qed

lemma collect_blocs_no_items:
  assumes "\<forall>b\<in>set bs. \<forall>l. items config b = Some l \<longrightarrow> l = []"
  shows "collect_blocs axis config responses bs vals = Inr vals"
  using assms by (induction bs) (auto split: option.splits)


section \<open>The claims\<close>

text \<open>
  C6. \<open>invert_score\<close> is an involution on the rating scale: applied twice to a rating
  \<open>v\<close> of 1 to 5 it gives \<open>v\<close> back, and it maps 1 to 5, 2 to 4, 3 to 3, 4 to 2
  and 5 to 1.
\<close>

theorem invert_score_involution:
  "(v \<in> {1, 2, 3, 4, 5} \<longrightarrow> invert_score (invert_score v) = v) \<and>
   invert_score 1 = 5 \<and> invert_score 2 = 4 \<and> invert_score 3 = 3 \<and>
   invert_score 4 = 2 \<and> invert_score 5 = 1"
  by (simp add: invert_score_def)

theorem invert_score_involution_witness:
  "(2::int) \<in> {1, 2, 3, 4, 5} \<and> invert_score (invert_score 2) = 2"
  using invert_score_involution [of 2] by simp

text \<open>
  C9. \<open>plot_kiviat\<close> requires exactly 8 entries in the score map: with any other
  number of entries it raises the \<open>ValueError\<close> and makes none of its calls on numpy
  and matplotlib (the calls made so far are returned unchanged), whatever those calls
  would do.
\<close>

theorem plot_kiviat_requires_8:
  "length scores \<noteq> 8 \<Longrightarrow>
   plot_kiviat lib scores save_path calls =
     (Some (ValueError (axes_count_msg (length scores))), calls)"
  by (simp add: plot_kiviat_def)

theorem plot_kiviat_requires_8_witness:
  "length (map (\<lambda>i. (str_nat i, Fin 50)) [0..<7]) \<noteq> 8 \<and>
   plot_kiviat (\<lambda>c. None) (map (\<lambda>i. (str_nat i, Fin 50)) [0..<7]) None [] =
     (Some (ValueError (axes_count_msg 7)), []) \<and>
   length (map (\<lambda>i. (str_nat i, Fin 50)) [0..<9]) \<noteq> 8 \<and>
   plot_kiviat (\<lambda>c. None) (map (\<lambda>i. (str_nat i, Fin 50)) [0..<9])
       (Some ''nyota_profile.png'') [] =
     (Some (ValueError (axes_count_msg 9)), [])"
  using plot_kiviat_requires_8 [of "map (\<lambda>i. (str_nat i, Fin 50)) [0..<7]" "\<lambda>c. None" None "[]"]
    plot_kiviat_requires_8 [of "map (\<lambda>i. (str_nat i, Fin 50)) [0..<9]" "\<lambda>c. None"
      "Some ''nyota_profile.png''" "[]"]
  by simp

text \<open>
  C7. In \<open>AXES_CONFIG\<close>, for every axis, every (block, item) pair of the inversion
  list is also in the axis's list of contributing items for that block.
\<close>

theorem invert_pairs_contribute:
  "\<forall>(axis_name, config) \<in> set AXES_CONFIG. \<forall>pairs. invert config = Some pairs \<longrightarrow>
     (\<forall>(bloc_name, item_num) \<in> set pairs.
        \<exists>l. items config bloc_name = Some l \<and> item_num \<in> set l)"
  by (simp add: AXES_CONFIG_def)

theorem invert_pairs_contribute_witness:
  "AXES_CONFIG ! 4 \<in> set AXES_CONFIG \<and>
   fst (AXES_CONFIG ! 4) = axis_resilience \<and>
   (\<exists>pairs. invert (snd (AXES_CONFIG ! 4)) = Some pairs \<and> (''bloc2'', 3) \<in> set pairs) \<and>
   (\<exists>l. items (snd (AXES_CONFIG ! 4)) ''bloc2'' = Some l \<and> 3 \<in> set l)"
  using invert_pairs_contribute
  by (simp add: AXES_CONFIG_def)

text \<open>
  C4. \<open>parse_responses\<close> renumbers global items to block-local indices by the offsets
  0, 30, 46 and 58: for every input map it returns the four blocks, block \<open>n\<close> holding
  at local index \<open>k\<close> what the input holds at \<open>k\<close> plus the offset, for \<open>k\<close> within the
  block and nothing else. So global key 31 is bloc2 item 1, key 46 is bloc2 item 16 and
  key 72 is bloc4 item 14; and a key outside 1--72 (such as 0 or 73) is dropped without
  an error: the result does not depend on it.
\<close>

theorem parse_responses_offsets:
  "\<exists>r b1 b2 b3 b4.
     parse_responses json = Inr r \<and>
     r ''bloc1'' = Some b1 \<and> r ''bloc2'' = Some b2 \<and>
     r ''bloc3'' = Some b3 \<and> r ''bloc4'' = Some b4 \<and>
     (\<forall>k. b1 k = (if 1 \<le> k \<and> k \<le> 30 then json k else None)) \<and>
     (\<forall>k. b2 k = (if 1 \<le> k \<and> k \<le> 16 then json (k + 30) else None)) \<and>
     (\<forall>k. b3 k = (if 1 \<le> k \<and> k \<le> 12 then json (k + 46) else None)) \<and>
     (\<forall>k. b4 k = (if 1 \<le> k \<and> k \<le> 14 then json (k + 58) else None)) \<and>
     b2 1 = json 31 \<and> b2 16 = json 46 \<and> b4 14 = json 72 \<and>
     (\<forall>k x. k < 1 \<or> 72 < k \<longrightarrow> parse_responses (json(k := x)) = parse_responses json) \<and>
     parse_responses (json(0 := x0)) = parse_responses json \<and>
     parse_responses (json(73 := x73)) = parse_responses json"
proof -
  have drop: "parse_responses (json(k := x)) = parse_responses json" if "k < 1 \<or> 72 < k" for k x
    unfolding parse_responses_eq using that
    by (intro arg_cong [where f = Inr]) (auto simp: fun_eq_iff)
  define b1 where "b1 = (\<lambda>k. if 1 \<le> k \<and> k \<le> 30 then json k else None)"
  define b2 where "b2 = (\<lambda>k. if 1 \<le> k \<and> k \<le> 16 then json (k + 30) else None)"
  define b3 where "b3 = (\<lambda>k. if 1 \<le> k \<and> k \<le> 12 then json (k + 46) else None)"
  define b4 where "b4 = (\<lambda>k. if 1 \<le> k \<and> k \<le> 14 then json (k + 58) else None)"
  define r where "r = [''bloc1'' \<mapsto> b1, ''bloc2'' \<mapsto> b2, ''bloc3'' \<mapsto> b3, ''bloc4'' \<mapsto> b4]"
  have p: "parse_responses json = Inr r"
    unfolding r_def b1_def b2_def b3_def b4_def by (rule parse_responses_eq)
  have blocs: "r ''bloc1'' = Some b1" "r ''bloc2'' = Some b2" "r ''bloc3'' = Some b3"
    "r ''bloc4'' = Some b4"
    by (simp_all add: r_def)
  have vals: "b2 1 = json 31" "b2 16 = json 46" "b4 14 = json 72"
    by (simp_all add: b2_def b4_def)
  have "parse_responses json = Inr r \<and>
     r ''bloc1'' = Some b1 \<and> r ''bloc2'' = Some b2 \<and>
     r ''bloc3'' = Some b3 \<and> r ''bloc4'' = Some b4 \<and>
     (\<forall>k. b1 k = (if 1 \<le> k \<and> k \<le> 30 then json k else None)) \<and>
     (\<forall>k. b2 k = (if 1 \<le> k \<and> k \<le> 16 then json (k + 30) else None)) \<and>
     (\<forall>k. b3 k = (if 1 \<le> k \<and> k \<le> 12 then json (k + 46) else None)) \<and>
     (\<forall>k. b4 k = (if 1 \<le> k \<and> k \<le> 14 then json (k + 58) else None)) \<and>
     b2 1 = json 31 \<and> b2 16 = json 46 \<and> b4 14 = json 72 \<and>
     (\<forall>k x. k < 1 \<or> 72 < k \<longrightarrow> parse_responses (json(k := x)) = parse_responses json) \<and>
     parse_responses (json(0 := x0)) = parse_responses json \<and>
     parse_responses (json(73 := x73)) = parse_responses json"
    using p blocs vals drop by (simp add: b1_def b2_def b3_def b4_def)
  then show ?thesis by blast
qed

theorem parse_responses_offsets_witness:
  "\<exists>r b2 b4.
     parse_responses [31 \<mapsto> 4, 46 \<mapsto> 2, 72 \<mapsto> 5, 0 \<mapsto> 1, 73 \<mapsto> 3] = Inr r \<and>
     r ''bloc2'' = Some b2 \<and> r ''bloc4'' = Some b4 \<and>
     b2 1 = Some 4 \<and> b2 16 = Some 2 \<and> b4 14 = Some 5 \<and>
     parse_responses [31 \<mapsto> 4, 46 \<mapsto> 2, 72 \<mapsto> 5, 0 \<mapsto> 1, 73 \<mapsto> 3] =
       parse_responses [31 \<mapsto> 4, 46 \<mapsto> 2, 72 \<mapsto> 5, 0 \<mapsto> 1]"
proof -
  let ?j = "[31 \<mapsto> 4, 46 \<mapsto> 2, 72 \<mapsto> 5, 0 \<mapsto> 1] :: raw_responses"
  from parse_responses_offsets [of "?j(73 \<mapsto> 3)" None None]
  obtain r b1 b2 b3 b4 where
    "parse_responses (?j(73 \<mapsto> 3)) = Inr r" "r ''bloc2'' = Some b2" "r ''bloc4'' = Some b4"
    "b2 1 = (?j(73 \<mapsto> 3)) 31" "b2 16 = (?j(73 \<mapsto> 3)) 46" "b4 14 = (?j(73 \<mapsto> 3)) 72"
    "parse_responses ((?j(73 \<mapsto> 3))(73 := None)) = parse_responses (?j(73 \<mapsto> 3))"
    by blast
  then show ?thesis by (intro exI [of _ r] exI [of _ b2] exI [of _ b4]) simp
qed

text \<open>
  C10. For every input map, the empty one included, \<open>parse_responses\<close> returns a dict
  with exactly the four keys \<open>bloc1\<close> to \<open>bloc4\<close>, each bound to a map, and every
  rating the input holds at a key from 1 to 72 is in its block, at its local index,
  unchanged. So the scorer's lookup \<open>responses[bloc_name]\<close> is defined for each of the
  four block names it goes through: on a parsed structure \<open>compute_axis_score\<close> never
  fails with a \<open>KeyError\<close> for a block name.
\<close>

theorem parse_responses_four_blocs:
  "\<exists>r. parse_responses json = Inr r \<and>
     dom r = {''bloc1'', ''bloc2'', ''bloc3'', ''bloc4''} \<and>
     (\<forall>i v. 1 \<le> i \<and> i \<le> 30 \<and> json i = Some v \<longrightarrow>
        (\<exists>d. r ''bloc1'' = Some d \<and> d i = Some v)) \<and>
     (\<forall>i v. 31 \<le> i \<and> i \<le> 46 \<and> json i = Some v \<longrightarrow>
        (\<exists>d. r ''bloc2'' = Some d \<and> d (i - 30) = Some v)) \<and>
     (\<forall>i v. 47 \<le> i \<and> i \<le> 58 \<and> json i = Some v \<longrightarrow>
        (\<exists>d. r ''bloc3'' = Some d \<and> d (i - 46) = Some v)) \<and>
     (\<forall>i v. 59 \<le> i \<and> i \<le> 72 \<and> json i = Some v \<longrightarrow>
        (\<exists>d. r ''bloc4'' = Some d \<and> d (i - 58) = Some v)) \<and>
     (\<forall>b\<in>set bloc_names. r b \<noteq> None) \<and>
     (\<forall>axis config. \<forall>b\<in>set bloc_names.
        compute_axis_score axis config r \<noteq> Inl (KeyError b)) \<and>
     parse_responses Map.empty =
       Inr [''bloc1'' \<mapsto> Map.empty, ''bloc2'' \<mapsto> Map.empty,
            ''bloc3'' \<mapsto> Map.empty, ''bloc4'' \<mapsto> Map.empty]"
proof -
  define r where "r =
    [''bloc1'' \<mapsto> (\<lambda>k. if 1 \<le> k \<and> k \<le> 30 then json k else None),
     ''bloc2'' \<mapsto> (\<lambda>k. if 1 \<le> k \<and> k \<le> 16 then json (k + 30) else None),
     ''bloc3'' \<mapsto> (\<lambda>k. if 1 \<le> k \<and> k \<le> 12 then json (k + 46) else None),
     ''bloc4'' \<mapsto> (\<lambda>k. if 1 \<le> k \<and> k \<le> 14 then json (k + 58) else None)]"
  have p: "parse_responses json = Inr r" unfolding r_def by (rule parse_responses_eq)
  have d: "dom r = {''bloc1'', ''bloc2'', ''bloc3'', ''bloc4''}"
    by (auto simp: r_def)
  have present: "\<forall>b\<in>set bloc_names. r b \<noteq> None"
    by (simp add: r_def bloc_names_def)
  have nokey: "\<forall>axis config. \<forall>b\<in>set bloc_names.
        compute_axis_score axis config r \<noteq> Inl (KeyError b)"
  proof (intro allI ballI notI)
    fix axis config b
    assume b: "b \<in> set bloc_names"
      and "compute_axis_score axis config r = Inl (KeyError b)"
    from compute_axis_score_error [OF this(2)] present b show False
      by (auto simp: bloc_names_def)
  qed
  have carried:
    "\<forall>i v. 1 \<le> i \<and> i \<le> 30 \<and> json i = Some v \<longrightarrow>
        (\<exists>d. r ''bloc1'' = Some d \<and> d i = Some v)"
    "\<forall>i v. 31 \<le> i \<and> i \<le> 46 \<and> json i = Some v \<longrightarrow>
        (\<exists>d. r ''bloc2'' = Some d \<and> d (i - 30) = Some v)"
    "\<forall>i v. 47 \<le> i \<and> i \<le> 58 \<and> json i = Some v \<longrightarrow>
        (\<exists>d. r ''bloc3'' = Some d \<and> d (i - 46) = Some v)"
    "\<forall>i v. 59 \<le> i \<and> i \<le> 72 \<and> json i = Some v \<longrightarrow>
        (\<exists>d. r ''bloc4'' = Some d \<and> d (i - 58) = Some v)"
    by (simp_all add: r_def)
  have e: "parse_responses Map.empty =
       Inr [''bloc1'' \<mapsto> Map.empty, ''bloc2'' \<mapsto> Map.empty,
            ''bloc3'' \<mapsto> Map.empty, ''bloc4'' \<mapsto> Map.empty]"
    unfolding parse_responses_eq by simp
  show ?thesis by (rule exI [of _ r]) (intro conjI p d carried present nokey e)
qed

theorem parse_responses_four_blocs_witness:
  "\<exists>r. parse_responses [5 \<mapsto> 4, 40 \<mapsto> 2] = Inr r \<and>
     dom r = {''bloc1'', ''bloc2'', ''bloc3'', ''bloc4''} \<and>
     (\<exists>d. r ''bloc1'' = Some d \<and> d 5 = Some 4) \<and>
     (\<exists>d. r ''bloc2'' = Some d \<and> d 10 = Some 2) \<and>
     r ''bloc3'' \<noteq> None \<and>
     compute_axis_score axis_style (snd (AXES_CONFIG ! 6)) r \<noteq> Inl (KeyError ''bloc3'')"
proof -
  let ?j = "[5 \<mapsto> 4, 40 \<mapsto> 2] :: raw_responses"
  from parse_responses_four_blocs [of ?j] show ?thesis
  proof (elim exE conjE)
    fix r
    assume p: "parse_responses ?j = Inr r"
      and d: "dom r = {''bloc1'', ''bloc2'', ''bloc3'', ''bloc4''}"
      and c1: "\<forall>i v. 1 \<le> i \<and> i \<le> 30 \<and> ?j i = Some v \<longrightarrow>
        (\<exists>d. r ''bloc1'' = Some d \<and> d i = Some v)"
      and c2: "\<forall>i v. 31 \<le> i \<and> i \<le> 46 \<and> ?j i = Some v \<longrightarrow>
        (\<exists>d. r ''bloc2'' = Some d \<and> d (i - 30) = Some v)"
      and present: "\<forall>b\<in>set bloc_names. r b \<noteq> None"
      and nokey: "\<forall>axis config. \<forall>b\<in>set bloc_names.
        compute_axis_score axis config r \<noteq> Inl (KeyError b)"
    from c1 [rule_format, of 5 4] have 1: "\<exists>d. r ''bloc1'' = Some d \<and> d 5 = Some 4" by simp
    from c2 [rule_format, of 40 2] have 2: "\<exists>d. r ''bloc2'' = Some d \<and> d 10 = Some 2" by simp
    from present have 3: "r ''bloc3'' \<noteq> None" by (simp add: bloc_names_def)
    from nokey [rule_format, of "''bloc3''" axis_style "snd (AXES_CONFIG ! 6)"]
    have 4: "compute_axis_score axis_style (snd (AXES_CONFIG ! 6)) r \<noteq> Inl (KeyError ''bloc3'')"
      by (simp add: bloc_names_def)
    show ?thesis by (rule exI [of _ r]) (intro conjI p d 1 2 3 4)
  qed
qed

text \<open>
  C8. For every axis configuration whose lists of contributing items are all empty or
  absent, \<open>compute_axis_score\<close> returns 0.0, whatever the responses; and the division
  that computes the mean is reached with a non-empty list only: \<open>compute_axis_score\<close>
  never fails with a \<open>ZeroDivisionError\<close>.
\<close>

theorem no_items_scores_zero:
  "((\<forall>b\<in>set bloc_names. \<forall>l. items config b = Some l \<longrightarrow> l = []) \<longrightarrow>
      compute_axis_score axis config responses = Inr (Fin 0)) \<and>
   compute_axis_score axis config responses \<noteq> Inl ZeroDivisionError"
proof
  show "(\<forall>b\<in>set bloc_names. \<forall>l. items config b = Some l \<longrightarrow> l = []) \<longrightarrow>
      compute_axis_score axis config responses = Inr (Fin 0)"
    by (simp add: compute_axis_score_def collect_blocs_no_items)
  show "compute_axis_score axis config responses \<noteq> Inl ZeroDivisionError"
  proof
    assume "compute_axis_score axis config responses = Inl ZeroDivisionError"
    from compute_axis_score_error [OF this] show False by auto
  qed
qed

theorem no_items_scores_zero_witness:
  "compute_axis_score ''Axe vide''
     \<lparr>items = [''bloc1'' \<mapsto> [], ''bloc3'' \<mapsto> []], invert = Some []\<rparr> Map.empty = Inr (Fin 0) \<and>
   compute_axis_score ''Axe vide'' \<lparr>items = Map.empty, invert = None\<rparr> Map.empty = Inr (Fin 0)"
  using
    no_items_scores_zero [of "\<lparr>items = [''bloc1'' \<mapsto> [], ''bloc3'' \<mapsto> []], invert = Some []\<rparr>"
      "''Axe vide''" Map.empty]
    no_items_scores_zero [of "\<lparr>items = Map.empty, invert = None\<rparr>" "''Axe vide''" Map.empty]
  by (simp add: bloc_names_def)

subsection \<open>Evaluating the eight axes\<close>

lemmas score_eval =
  compute_all_scores_def parse_responses_eq AXES_CONFIG_def compute_axis_score_def
  bloc_names_def upto_from_1 all_items_def invert_score_def axis_names

lemma double_42_86:
  "to_double (4286 / 100) = Fin (3016004375454679 / 70368744177664)"
proof -
  have "round_half_even ((4286 / 100) / 2 powi (5 - 52)) = 6032008750909358"
    by (rule round_half_even_eqI) simp_all
  then have "to_double (4286 / 100) = Fin (of_int 6032008750909358 * 2 powi (5 - 52))"
    by (rule to_double_eval [rotated 4]) simp_all
  then show ?thesis by simp
qed

text \<open>
  C1. With every item 1 to 72 rated 3, \<open>compute_all_scores\<close> returns the eight axes,
  in the order of the configuration, each with the score 50.0.
\<close>

theorem all_neutral_scores_50:
  "compute_all_scores (all_items 3) =
     Inr [(axis_ouverture, Fin 50), (axis_discipline, Fin 50), (axis_influence, Fin 50),
          (axis_cooperation, Fin 50), (axis_resilience, Fin 50), (axis_drive, Fin 50),
          (axis_style, Fin 50), (axis_alignement, Fin 50)]"
  by (simp add: score_eval int_truediv_exact [of _ _ 3] normalize_to_100_3)

text \<open>
  C3. With every item 1 to 72 rated 5, the axis \<open>R\<eacute>silience & Stress\<close>, whose bloc2
  items 1 to 8 are inverted, gets a score strictly below 100.0 (it is 42.86, the float
  nearest to 4286/100), while \<open>Discipline & Fiabilit\<eacute>\<close>, which has no inversion, gets
  exactly 100.0, as the six other axes do.
\<close>

theorem all_five_scores:
  "compute_all_scores (all_items 5) =
     Inr [(axis_ouverture, Fin 100), (axis_discipline, Fin 100), (axis_influence, Fin 100),
          (axis_cooperation, Fin 100),
          (axis_resilience, Fin (3016004375454679 / 70368744177664)),
          (axis_drive, Fin 100), (axis_style, Fin 100), (axis_alignement, Fin 100)] \<and>
   (3016004375454679 / 70368744177664 :: rat) < 100 \<and>
   to_double (4286 / 100) = Fin (3016004375454679 / 70368744177664)"
proof (intro conjI)
  show "compute_all_scores (all_items 5) =
     Inr [(axis_ouverture, Fin 100), (axis_discipline, Fin 100), (axis_influence, Fin 100),
          (axis_cooperation, Fin 100),
          (axis_resilience, Fin (3016004375454679 / 70368744177664)),
          (axis_drive, Fin 100), (axis_style, Fin 100), (axis_alignement, Fin 100)]"
    by (simp add: score_eval int_truediv_exact [of _ _ 5] normalize_to_100_5
        mean_38_14 normalize_to_100_resilience)
  show "(3016004375454679 / 70368744177664 :: rat) < 100" by simp
  show "to_double (4286 / 100) = Fin (3016004375454679 / 70368744177664)"
    by (rule double_42_86)
qed



subsection \<open>What the rounding to two decimals does\<close>

lemma round_half_even_error: "\<bar>x - of_int (round_half_even x)\<bar> \<le> 1 / 2"
  using round_half_even_bounds [of x] by linarith

lemma round_half_even_tie:
  assumes "\<bar>x - of_int (round_half_even x)\<bar> = 1 / 2"
  shows "even (round_half_even x)"
proof -
  define d where "d = x - of_int \<lfloor>x\<rfloor>"
  have d: "0 \<le> d" "d < 1" unfolding d_def by linarith+
  consider "d < 1 / 2" | "1 / 2 < d" | "d = 1 / 2" by linarith
  then show ?thesis
  proof cases
    case 1
    then have "round_half_even x = \<lfloor>x\<rfloor>"
      by (simp add: round_half_even_def Let_def d_def)
    with assms d 1 show ?thesis by (simp add: d_def)
  next
    case 2
    then have "round_half_even x = \<lfloor>x\<rfloor> + 1"
      by (simp add: round_half_even_def Let_def d_def)
    with assms d 2 have "\<bar>d - 1\<bar> = 1 / 2" by (simp add: d_def algebra_simps)
    with d 2 show ?thesis by linarith
  next
    case 3
    then show ?thesis by (simp add: round_half_even_def Let_def d_def)
  qed
qed

lemma round_nearest_error: "\<bar>round_nearest x - x\<bar> \<le> ulp x / 2"
proof -
  have u: "0 < ulp x" by (rule ulp_pos)
  have "round_nearest x - x = (of_int (round_half_even (x / ulp x)) - x / ulp x) * ulp x"
    using u by (simp add: round_nearest_def field_simps)
  then have "\<bar>round_nearest x - x\<bar> = \<bar>x / ulp x - of_int (round_half_even (x / ulp x))\<bar> * ulp x"
    using u by (simp add: abs_mult abs_minus_commute)
  also have "\<dots> \<le> 1 / 2 * ulp x"
    using u round_half_even_error [of "x / ulp x"] by (simp only: mult_le_cancel_right_pos)
  finally show ?thesis by simp
qed

lemma to_double_FinD: "to_double x = Fin y \<Longrightarrow> y = round_nearest x"
  by (auto simp: to_double_def Let_def split: if_splits)

lemma normalize_to_100_rounds:
  assumes "1 \<le> m" "m \<le> 5"
  shows "\<exists>a k r.
     float_map (\<lambda>a. a * 100) (float_map (\<lambda>a. a / 4) (float_map (\<lambda>a. a - 1) (Fin m))) = Fin a \<and>
     \<bar>a * 100 - of_int k\<bar> \<le> 1 / 2 \<and> (\<bar>a * 100 - of_int k\<bar> = 1 / 2 \<longrightarrow> even k) \<and>
     normalize_to_100 (Fin m) = Fin r \<and> to_double (of_int k / 100) = Fin r \<and>
     \<bar>r - of_int k / 100\<bar> \<le> ulp (of_int k / 100) / 2 \<and> 0 \<le> r \<and> r \<le> 100"
proof -
  have "0 \<le> m - 1" "m - 1 \<le> of_int 4" using assms by simp_all
  then obtain a1 where a1: "to_double (m - 1) = Fin a1" "0 \<le> a1" "a1 \<le> 4"
    using to_double_bounded [of "m - 1" 4] by auto
  have "0 \<le> a1 / 4" "a1 / 4 \<le> of_int 1" using a1 by simp_all
  then obtain a2 where a2: "to_double (a1 / 4) = Fin a2" "0 \<le> a2" "a2 \<le> 1"
    using to_double_bounded [of "a1 / 4" 1] by auto
  have "0 \<le> a2 * 100" "a2 * 100 \<le> of_int 100" using a2 by simp_all
  then obtain a where a: "to_double (a2 * 100) = Fin a" "0 \<le> a" "a \<le> 100"
    using to_double_bounded [of "a2 * 100" 100] by auto
  define k where "k = round_half_even (a * 100)"
  have "round_half_even (of_int 0) \<le> k" unfolding k_def
    by (rule round_half_even_mono) (use a in simp)
  then have k0: "0 \<le> k" by (simp only: round_half_even_of_int)
  have "k \<le> round_half_even (of_int 10000)" unfolding k_def
    by (rule round_half_even_mono) (use a in simp)
  then have k1: "k \<le> 10000" by (simp only: round_half_even_of_int)
  have "0 \<le> (of_int k :: rat) / 100" "(of_int k :: rat) / 100 \<le> of_int 100"
    using k0 k1 by simp_all
  then obtain r where r: "to_double (of_int k / 100) = Fin r" "0 \<le> r" "r \<le> 100"
    using to_double_bounded [of "of_int k / 100" 100] by auto
  have chain: "float_map (\<lambda>a. a * 100) (float_map (\<lambda>a. a / 4) (float_map (\<lambda>a. a - 1) (Fin m))) = Fin a"
    by (simp only: float_map_Fin a1 a2 a)
  have n: "normalize_to_100 (Fin m) = Fin r"
    unfolding normalize_to_100_def chain py_round_Fin using r(1) by (simp add: k_def)
  have e1: "\<bar>a * 100 - of_int k\<bar> \<le> 1 / 2"
    unfolding k_def by (rule round_half_even_error)
  have e2: "\<bar>a * 100 - of_int k\<bar> = 1 / 2 \<longrightarrow> even k"
    unfolding k_def by (rule impI) (rule round_half_even_tie)
  have "r = round_nearest (of_int k / 100)" using r(1) by (rule to_double_FinD)
  then have e3: "\<bar>r - of_int k / 100\<bar> \<le> ulp (of_int k / 100) / 2"
    using round_nearest_error [of "of_int k / 100"] by simp
  show ?thesis
    by (rule exI [of _ a], rule exI [of _ k], rule exI [of _ r])
      (intro conjI chain e1 e2 n r e3)
qed

lemma double_40_62:
  "to_double (4062 / 100) = Fin (5716756776993423 / 140737488355328)"
proof -
  have "round_half_even ((4062 / 100) / 2 powi (5 - 52)) = 5716756776993423"
    by (rule round_half_even_eqI) simp_all
  then have "to_double (4062 / 100) = Fin (of_int 5716756776993423 * 2 powi (5 - 52))"
    by (rule to_double_eval [rotated 4]) simp_all
  then show ?thesis by simp
qed

text \<open>A tie: 2.625 gives 40.625 before the rounding, and 40.62 after it, not 40.63.\<close>

lemma normalize_to_100_tie:
  "normalize_to_100 (Fin (21 / 8)) = Fin (5716756776993423 / 140737488355328)"
proof -
  have a1: "to_double (21 / 8 - 1) = Fin (13 / 8)"
    using to_double_dyadic [of 13 3] by simp
  have a2: "to_double (13 / 8 / 4) = Fin (13 / 32)"
    using to_double_dyadic [of 13 5] by simp
  have a3: "to_double (13 / 32 * 100) = Fin (325 / 8)"
    using to_double_dyadic [of 325 3] by simp
  have k: "round_half_even (325 / 8 * 10 ^ 2) = 4062"
    by code_simp
  have r: "to_double (of_int 4062 / 10 ^ 2) = Fin (5716756776993423 / 140737488355328)"
    using double_40_62 by simp
  show ?thesis
    by (simp only: normalize_to_100_Fin a1 float_map_Fin a2 a3 py_round_Fin k r)
qed

text \<open>
  C5. \<open>normalize_to_100\<close> computes \<open>round(((m - 1) / 4) * 100, 2)\<close> on floats. For every
  mean \<open>m\<close> from 1 to 5, the product \<open>a\<close> before the rounding is finite, and the result
  \<open>r\<close> is the float nearest to \<open>k / 100\<close>, where \<open>k\<close> is the integer nearest to
  \<open>100 a\<close>, the even one on a tie; \<open>r\<close> lies from 0 to 100. It maps 1 to 0.0, 3 to 50.0
  and 5 to 100.0. Where the rounding matters: 2.625 gives 40.62 (a tie, 40.625 before
  the rounding), and the mean of six 5 and eight 1, the float of 38/14, gives 42.86
  (42.857142857142854 before the rounding).
\<close>

theorem normalize_to_100_bounds:
  "normalize_to_100 s =
     py_round (float_map (\<lambda>a. a * 100) (float_map (\<lambda>a. a / 4) (float_map (\<lambda>a. a - 1) s))) 2 \<and>
   (1 \<le> m \<and> m \<le> 5 \<longrightarrow>
      (\<exists>a k r.
         float_map (\<lambda>a. a * 100) (float_map (\<lambda>a. a / 4) (float_map (\<lambda>a. a - 1) (Fin m))) = Fin a \<and>
         \<bar>a * 100 - of_int k\<bar> \<le> 1 / 2 \<and> (\<bar>a * 100 - of_int k\<bar> = 1 / 2 \<longrightarrow> even k) \<and>
         normalize_to_100 (Fin m) = Fin r \<and> to_double (of_int k / 100) = Fin r \<and>
         \<bar>r - of_int k / 100\<bar> \<le> ulp (of_int k / 100) / 2 \<and> 0 \<le> r \<and> r \<le> 100)) \<and>
   normalize_to_100 (Fin 1) = Fin 0 \<and>
   normalize_to_100 (Fin 3) = Fin 50 \<and>
   normalize_to_100 (Fin 5) = Fin 100 \<and>
   normalize_to_100 (Fin (21 / 8)) = Fin (5716756776993423 / 140737488355328) \<and>
   to_double (4062 / 100) = Fin (5716756776993423 / 140737488355328) \<and>
   int_truediv 38 14 = Inr (Fin (3056014032858551 / 1125899906842624)) \<and>
   normalize_to_100 (Fin (3056014032858551 / 1125899906842624)) =
     Fin (3016004375454679 / 70368744177664) \<and>
   to_double (4286 / 100) = Fin (3016004375454679 / 70368744177664) \<and>
   float_map (\<lambda>a. a * 100) (float_map (\<lambda>a. a / 4) (float_map (\<lambda>a. a - 1)
     (Fin (3056014032858551 / 1125899906842624)))) = Fin (1507901660949943 / 35184372088832)"
proof (intro conjI impI)
  show "normalize_to_100 s =
     py_round (float_map (\<lambda>a. a * 100) (float_map (\<lambda>a. a / 4) (float_map (\<lambda>a. a - 1) s))) 2"
    by (rule normalize_to_100_def)
  show "normalize_to_100 (Fin 1) = Fin 0" by (rule normalize_to_100_1)
  show "normalize_to_100 (Fin 3) = Fin 50" by (rule normalize_to_100_3)
  show "normalize_to_100 (Fin 5) = Fin 100" by (rule normalize_to_100_5)
  show "normalize_to_100 (Fin (21 / 8)) = Fin (5716756776993423 / 140737488355328)"
    by (rule normalize_to_100_tie)
  show "to_double (4062 / 100) = Fin (5716756776993423 / 140737488355328)"
    by (rule double_40_62)
  show "int_truediv 38 14 = Inr (Fin (3056014032858551 / 1125899906842624))"
    by (rule mean_38_14)
  show "normalize_to_100 (Fin (3056014032858551 / 1125899906842624)) =
     Fin (3016004375454679 / 70368744177664)"
    by (rule normalize_to_100_resilience)
  show "to_double (4286 / 100) = Fin (3016004375454679 / 70368744177664)"
    by (rule double_42_86)
  show "float_map (\<lambda>a. a * 100) (float_map (\<lambda>a. a / 4) (float_map (\<lambda>a. a - 1)
     (Fin (3056014032858551 / 1125899906842624)))) = Fin (1507901660949943 / 35184372088832)"
    by (rule resilience_before_rounding)
next
  assume "1 \<le> m \<and> m \<le> 5"
  then show "\<exists>a k r.
         float_map (\<lambda>a. a * 100) (float_map (\<lambda>a. a / 4) (float_map (\<lambda>a. a - 1) (Fin m))) = Fin a \<and>
         \<bar>a * 100 - of_int k\<bar> \<le> 1 / 2 \<and> (\<bar>a * 100 - of_int k\<bar> = 1 / 2 \<longrightarrow> even k) \<and>
         normalize_to_100 (Fin m) = Fin r \<and> to_double (of_int k / 100) = Fin r \<and>
         \<bar>r - of_int k / 100\<bar> \<le> ulp (of_int k / 100) / 2 \<and> 0 \<le> r \<and> r \<le> 100"
    using normalize_to_100_rounds [of m] by simp
qed

theorem normalize_to_100_bounds_witness:
  "(1::rat) \<le> 19 / 7 \<and> (19 / 7 :: rat) \<le> 5 \<and>
   (\<exists>a k r.
      float_map (\<lambda>a. a * 100) (float_map (\<lambda>a. a / 4) (float_map (\<lambda>a. a - 1) (Fin (19 / 7)))) = Fin a \<and>
      \<bar>a * 100 - of_int k\<bar> \<le> 1 / 2 \<and>
      normalize_to_100 (Fin (19 / 7)) = Fin r \<and> to_double (of_int k / 100) = Fin r \<and>
      0 \<le> r \<and> r \<le> 100)"
proof -
  have h: "(1::rat) \<le> 19 / 7 \<and> (19 / 7 :: rat) \<le> 5" by simp
  from normalize_to_100_bounds [of "Fin (19 / 7)" "19 / 7", THEN conjunct2, THEN conjunct1, rule_format, OF h]
  obtain a k r where
    "float_map (\<lambda>a. a * 100) (float_map (\<lambda>a. a / 4) (float_map (\<lambda>a. a - 1) (Fin (19 / 7)))) = Fin a"
    "\<bar>a * 100 - of_int k\<bar> \<le> 1 / 2"
    "normalize_to_100 (Fin (19 / 7)) = Fin r" "to_double (of_int k / 100) = Fin r"
    "0 \<le> r" "r \<le> 100"
    by (elim exE conjE)
  with h show ?thesis by (intro conjI exI) (simp_all only:)
qed

end
